theory Spec2Isabelle
  imports Main "HOL-Library.Sublist" "HOL-Library.AList"
begin

section \<open>Python strings\<close>

text \<open>
  A Python \<open>str\<close> is modelled as a \<^typ>\<open>string\<close>, one \<^typ>\<open>char\<close> per code point,
  so the model covers the code points below 256. The character classes
  (\<open>isspace\<close>, \<open>isupper\<close>, \<open>lower\<close>) are Python's on that range; Python has
  further uppercase letters above it, some of which \<open>lower()\<close> keeps. The operations
  that do not look at the characters are polymorphic in the element type, and the case
  folding is given a second time for strings of any characters, with the character
  classes as parameters.
\<close>

definition py_isspace :: "char \<Rightarrow> bool" where
  \<comment> \<open>\<open>str.isspace\<close> on one character: tab to carriage return, the four separators
     0x1C..0x1F, space, NEL (0x85) and the no-break space (0xA0).\<close>
  "py_isspace c = (let n = (of_char c :: nat) in
     (9 \<le> n \<and> n \<le> 13) \<or> (28 \<le> n \<and> n \<le> 32) \<or> n = 133 \<or> n = 160)"

definition py_isupper :: "char \<Rightarrow> bool" where
  \<comment> \<open>\<open>c.isupper()\<close>: A..Z and the Latin-1 capitals 0xC0..0xDE without the
     multiplication sign 0xD7.\<close>
  "py_isupper c = (let n = (of_char c :: nat) in
     (65 \<le> n \<and> n \<le> 90) \<or> (192 \<le> n \<and> n \<le> 222 \<and> n \<noteq> 215))"

definition py_lower :: "char \<Rightarrow> string" where
  \<comment> \<open>\<open>c.lower()\<close>: every capital of the range has its small letter 32 places up.\<close>
  "py_lower c = (if py_isupper c then [char_of ((of_char c :: nat) + 32)] else [c])"

definition str_count :: "'a list \<Rightarrow> 'a \<Rightarrow> nat" where
  \<comment> \<open>\<open>s.count(c)\<close> for a pattern of one character.\<close>
  "str_count s c = length (filter (\<lambda>x. x = c) s)"

definition slice_idx :: "nat \<Rightarrow> int \<Rightarrow> nat" where
  \<comment> \<open>A slice bound: a negative bound counts from the end, and the bound is clipped
     to the length.\<close>
  "slice_idx n i = (if i < 0 then nat (max 0 (int n + i)) else min n (nat i))"

definition str_slice :: "'a list \<Rightarrow> int \<Rightarrow> int \<Rightarrow> 'a list" where
  \<comment> \<open>\<open>s[i:j]\<close>\<close>
  "str_slice s i j =
     (let lo = slice_idx (length s) i; hi = slice_idx (length s) j
      in take (hi - lo) (drop lo s))"

fun index_of :: "'a \<Rightarrow> 'a list \<Rightarrow> nat option" where
  "index_of c [] = None"
| "index_of c (x # xs) =
     (if x = c then Some 0 else map_option Suc (index_of c xs))"

definition str_find :: "'a list \<Rightarrow> 'a \<Rightarrow> int \<Rightarrow> int" where
  \<comment> \<open>\<open>s.find(c, start)\<close>: the lowest index from \<open>start\<close> on, \<open>-1\<close> when there is none.\<close>
  "str_find s c start =
     (let lo = slice_idx (length s) start
      in case index_of c (drop lo s) of None \<Rightarrow> - 1 | Some i \<Rightarrow> int (lo + i))"

definition str_strip :: "string \<Rightarrow> string" where
  \<comment> \<open>\<open>s.strip()\<close>\<close>
  "str_strip s = rev (dropWhile py_isspace (rev (dropWhile py_isspace s)))"

definition str_lstrip :: "string \<Rightarrow> string" where
  \<comment> \<open>\<open>s.lstrip()\<close>\<close>
  "str_lstrip s = dropWhile py_isspace s"

function replace_scan :: "'a list \<Rightarrow> 'a list \<Rightarrow> 'a list \<Rightarrow> 'a list" where
  "replace_scan [] old new = []"
| "replace_scan (c # cs) old new =
     (if old \<noteq> [] \<and> prefix old (c # cs)
      then new @ replace_scan (drop (length old) (c # cs)) old new
      else c # replace_scan cs old new)"
  by pat_completeness auto
termination
  by (relation "measure (\<lambda>(s, old, new). length s)") auto

definition str_replace :: "'a list \<Rightarrow> 'a list \<Rightarrow> 'a list \<Rightarrow> 'a list" where
  \<comment> \<open>\<open>s.replace(old, new)\<close>: every occurrence found scanning from the left, the scan
     going on behind each one; an empty \<open>old\<close> matches before every character and at
     the end.\<close>
  "str_replace s old new =
     (if old = [] then new @ concat (map (\<lambda>c. c # new) s)
      else replace_scan s old new)"

section \<open>find_and_replace_math\<close>

definition find_and_replace_math :: "string \<Rightarrow> string" where
  "find_and_replace_math content =
     (if str_count content (CHR ''$'') > 1 then
        let start = str_find content (CHR ''$'') 0;
            end = str_find content (CHR ''$'') (start + 1);
            doxy_latex = str_slice content start (end + 1);
            rst_latex = '':math:'' @ [CHR 0x60] @ str_strip (str_slice doxy_latex 1 (- 1))
                        @ [CHR 0x60]
        in str_replace content doxy_latex rst_latex
      else content)"


section \<open>parse_doxygen_config\<close>

datatype py_error =
  IndexError | KeyError | UnboundLocalError | AssertionError | FileNotFoundError
  | UnicodeDecodeError

text \<open>
  The files of the module are text files; a file system is a map from a path to the
  text that reading the file gives (decoded, with every line ending translated to a
  line feed). A path that the map does not bind is a file that does not exist.
\<close>

type_synonym filesystem = "string \<rightharpoonup> string"

fun readlines :: "string \<Rightarrow> string list" where
  \<comment> \<open>\<open>ff.readlines()\<close>: the lines, each with its line feed.\<close>
  "readlines [] = []"
| "readlines (c # cs) =
     (if c = CHR ''\<newline>'' then [c] # readlines cs
      else (case readlines cs of [] \<Rightarrow> [[c]] | l # ls \<Rightarrow> (c # l) # ls))"

fun str_split :: "'a list \<Rightarrow> 'a \<Rightarrow> 'a list list" where
  \<comment> \<open>\<open>s.split(sep)\<close> for a separator of one character: a cut at every separator.\<close>
  "str_split [] sep = [[]]"
| "str_split (c # cs) sep =
     (if c = sep then [] # str_split cs sep
      else (case str_split cs sep of [] \<Rightarrow> [[c]] | p # ps \<Rightarrow> (c # p) # ps))"

function str_split_ws :: "string \<Rightarrow> string list" where
  \<comment> \<open>\<open>s.split()\<close> and \<open>s.rsplit()\<close>: the maximal runs without white space.\<close>
  "str_split_ws s =
     (case dropWhile py_isspace s of
        [] \<Rightarrow> []
      | c # cs \<Rightarrow> (c # takeWhile (\<lambda>x. \<not> py_isspace x) cs)
                  # str_split_ws (dropWhile (\<lambda>x. \<not> py_isspace x) cs))"
  by pat_completeness auto
termination
proof (relation "measure length")
  show "wf (measure length)" by simp
next
  fix s :: string and c cs
  assume a: "dropWhile py_isspace s = c # cs"
  have "length (dropWhile (\<lambda>x. \<not> py_isspace x) cs) \<le> length cs"
    by (rule length_dropWhile_le)
  moreover have "length (c # cs) \<le> length s"
    using length_dropWhile_le [of py_isspace s] a by simp
  ultimately show "(dropWhile (\<lambda>x. \<not> py_isspace x) cs, s) \<in> measure length"
    by simp
qed

definition first_token :: "string \<Rightarrow> py_error + string" where
  \<comment> \<open>\<open>x.rsplit()[0]\<close>\<close>
  "first_token x = (case str_split_ws x of [] \<Rightarrow> Inl IndexError | k # _ \<Rightarrow> Inr k)"

type_synonym config_state = "(string \<times> string) list \<times> string list option"

fun config_line :: "config_state \<Rightarrow> string \<Rightarrow> py_error + config_state" where
  \<comment> \<open>The body of the loop over \<open>conf\<close>. The state is the dictionary \<open>result\<close> (in
     insertion order) and the local \<open>backup\<close>, unbound before its first assignment.\<close>
  "config_line (result, backup) d =
     (if str_count d (CHR ''='') > 0 then
        (case str_split d (CHR ''='') of
           r0 # r1 # rest \<Rightarrow>
             (case first_token r0 of
                Inl e \<Rightarrow> Inl e
              | Inr k \<Rightarrow> Inr (AList.update k r1 result, Some (r0 # r1 # rest)))
         | _ \<Rightarrow> Inl IndexError)
      else
        (case backup of
           None \<Rightarrow> Inl UnboundLocalError
         | Some [] \<Rightarrow> Inl IndexError
         | Some (b0 # bs) \<Rightarrow>
             (case first_token b0 of
                Inl e \<Rightarrow> Inl e
              | Inr k \<Rightarrow>
                  (case map_of result k of
                     None \<Rightarrow> Inl KeyError
                   | Some v \<Rightarrow> Inr (AList.update k (v @ d) result, Some (b0 # bs))))))"

fun config_lines :: "config_state \<Rightarrow> string list \<Rightarrow> py_error + config_state" where
  "config_lines st [] = Inr st"
| "config_lines st (d # ds) =
     (case config_line st d of Inl e \<Rightarrow> Inl e | Inr st' \<Rightarrow> config_lines st' ds)"

definition conf_of :: "string \<Rightarrow> string list" where
  \<comment> \<open>The list \<open>conf\<close>: the lines that start neither with \<open>#\<close> nor with a line
     feed, each stripped.\<close>
  "conf_of content =
     map str_strip
       (filter (\<lambda>n. \<not> prefix ''#'' n \<and> \<not> prefix ''\<newline>'' n) (readlines content))"

definition parse_doxygen_config ::
  "filesystem \<Rightarrow> string \<Rightarrow> py_error + (string \<times> string) list" where
  "parse_doxygen_config fs filename =
     (case fs filename of
        None \<Rightarrow> Inl FileNotFoundError
      | Some content \<Rightarrow>
          (case config_lines ([], None) (conf_of content) of
             Inl e \<Rightarrow> Inl e
           | Inr (result, backup) \<Rightarrow> Inr result))"

section \<open>filter_dot_in_xml_formulas\<close>

fun rindex_of :: "'a \<Rightarrow> 'a list \<Rightarrow> nat option" where
  \<comment> \<open>The highest index of a character.\<close>
  "rindex_of c [] = None"
| "rindex_of c (x # xs) =
     (case rindex_of c xs of
        Some i \<Rightarrow> Some (Suc i)
      | None \<Rightarrow> (if x = c then Some 0 else None))"

definition path_name :: "string \<Rightarrow> string" where
  \<comment> \<open>\<open>Path.name\<close>: the last component of a path written without a trailing slash.\<close>
  "path_name p =
     (case rindex_of (CHR ''/'') p of None \<Rightarrow> p | Some i \<Rightarrow> drop (Suc i) p)"

definition path_stem :: "string \<Rightarrow> string" where
  \<comment> \<open>\<open>Path.stem\<close>: the name without its last suffix; a dot that starts or ends the
     name starts no suffix.\<close>
  "path_stem p =
     (let name = path_name p
      in case rindex_of (CHR ''.'') name of
           None \<Rightarrow> name
         | Some i \<Rightarrow> if 0 < i \<and> i < length name - 1 then take i name else name)"

definition double_backslash_dot :: string where
  "double_backslash_dot = [CHR 0x5C, CHR 0x5C] @ ''dot''"

definition backslash_dot :: string where
  "backslash_dot = [CHR 0x5C] @ ''dot''"

text \<open>
  \<open>filter_dot_in_xml_formulas\<close> names the encoding, so here a file is the list of its
  bytes, a \<^typ>\<open>char\<close> being one byte. Opening the file for reading with
  \<open>encoding='utf8'\<close> fails on bytes that are not valid UTF-8, and reading in text mode
  turns every carriage return with its line feed, and every other carriage return, into
  a line feed; writing in text mode writes every line feed as the line separator of the
  platform (\<open>os.linesep\<close>, a parameter of the model). The text is kept as its UTF-8
  bytes: the characters of the line endings and of the two sequences are ASCII, which in
  valid UTF-8 stand for nothing but themselves, so translating and replacing on the bytes
  gives the encoding of what the code computes on the decoded text.
\<close>

type_synonym stored_files = "string \<rightharpoonup> char list"

definition is_continuation :: "char \<Rightarrow> bool" where
  "is_continuation c = (let n = (of_char c :: nat) in 0x80 \<le> n \<and> n \<le> 0xBF)"

definition second_of_three :: "nat \<Rightarrow> char \<Rightarrow> bool" where
  \<comment> \<open>The second byte after a lead byte \<open>0xE0..0xEF\<close>: no overlong form, no surrogate.\<close>
  "second_of_three lead c = (let n = (of_char c :: nat) in
     if lead = 0xE0 then 0xA0 \<le> n \<and> n \<le> 0xBF
     else if lead = 0xED then 0x80 \<le> n \<and> n \<le> 0x9F
     else 0x80 \<le> n \<and> n \<le> 0xBF)"

definition second_of_four :: "nat \<Rightarrow> char \<Rightarrow> bool" where
  \<comment> \<open>The second byte after a lead byte \<open>0xF0..0xF4\<close>: no overlong form, nothing
     above U+10FFFF.\<close>
  "second_of_four lead c = (let n = (of_char c :: nat) in
     if lead = 0xF0 then 0x90 \<le> n \<and> n \<le> 0xBF
     else if lead = 0xF4 then 0x80 \<le> n \<and> n \<le> 0x8F
     else 0x80 \<le> n \<and> n \<le> 0xBF)"

fun utf8_valid :: "char list \<Rightarrow> bool" where
  \<comment> \<open>The byte sequences that the strict UTF-8 decoder accepts.\<close>
  "utf8_valid [] = True"
| "utf8_valid (b # bs) =
     (let n = (of_char b :: nat) in
      if n < 0x80 then utf8_valid bs
      else if 0xC2 \<le> n \<and> n \<le> 0xDF then
        (case bs of c1 # r \<Rightarrow> is_continuation c1 \<and> utf8_valid r | _ \<Rightarrow> False)
      else if 0xE0 \<le> n \<and> n \<le> 0xEF then
        (case bs of
           c1 # c2 # r \<Rightarrow> second_of_three n c1 \<and> is_continuation c2 \<and> utf8_valid r
         | _ \<Rightarrow> False)
      else if 0xF0 \<le> n \<and> n \<le> 0xF4 then
        (case bs of
           c1 # c2 # c3 # r \<Rightarrow>
             second_of_four n c1 \<and> is_continuation c2 \<and> is_continuation c3 \<and> utf8_valid r
         | _ \<Rightarrow> False)
      else False)"

fun read_newlines :: "char list \<Rightarrow> char list" where
  \<comment> \<open>Reading in text mode: \<open>CR LF\<close> and a lone \<open>CR\<close> are read as \<open>LF\<close>.\<close>
  "read_newlines [] = []"
| "read_newlines [c] = (if c = CHR 0x0D then [CHR ''\<newline>''] else [c])"
| "read_newlines (c # d # cs) =
     (if c = CHR 0x0D \<and> d = CHR ''\<newline>'' then CHR ''\<newline>'' # read_newlines cs
      else if c = CHR 0x0D then CHR ''\<newline>'' # read_newlines (d # cs)
      else c # read_newlines (d # cs))"

definition write_newlines :: "char list \<Rightarrow> char list \<Rightarrow> char list" where
  \<comment> \<open>Writing in text mode: every \<open>LF\<close> is written as the line separator.\<close>
  "write_newlines linesep txt =
     concat (map (\<lambda>c. if c = CHR ''\<newline>'' then linesep else [c]) txt)"

definition filter_dot_in_xml_formulas ::
  "char list \<Rightarrow> string \<Rightarrow> stored_files \<Rightarrow> py_error + stored_files" where
  \<comment> \<open>The text is read, rewritten and written to \<open>fileout\<close>, which is then moved
     onto \<open>xmlfile\<close>.\<close>
  "filter_dot_in_xml_formulas linesep xmlfile fs =
     (let fileout = path_stem xmlfile @ ''.tmp''
      in case fs xmlfile of
           None \<Rightarrow> Inl FileNotFoundError
         | Some bytes \<Rightarrow>
             if \<not> utf8_valid bytes then Inl UnicodeDecodeError
             else
               (let lines = read_newlines bytes;
                    newlines = str_replace lines double_backslash_dot backslash_dot;
                    written = fs(fileout \<mapsto> write_newlines linesep newlines)
                in Inr ((written(fileout := None))
                          (xmlfile \<mapsto> write_newlines linesep newlines))))"

section \<open>replace_uppercase_letters and get_xml_files\<close>

definition replace_uppercase_letters :: "string \<Rightarrow> string" where
  "replace_uppercase_letters filename =
     concat (map (\<lambda>c. if py_isupper c then CHR ''_'' # py_lower c else [c]) filename)"

definition replace_uppercase_letters_by ::
  "('a \<Rightarrow> bool) \<Rightarrow> ('a \<Rightarrow> 'a list) \<Rightarrow> 'a \<Rightarrow> 'a list \<Rightarrow> 'a list" where
  \<comment> \<open>The same loop over a string of any characters. \<open>isupper\<close> and \<open>lower\<close> are the
     two methods of a character that the loop calls; they are Python's, not the
     module's, and are parameters here, as is the character \<open>_\<close>.
     \<open>replace_uppercase_letters\<close> is the instance for the characters below 256.\<close>
  "replace_uppercase_letters_by isupper lower underscore filename =
     concat (map (\<lambda>c. if isupper c then underscore # lower c else [c]) filename)"

definition double_underscores :: "'a \<Rightarrow> 'a list \<Rightarrow> 'a list" where
  \<comment> \<open>\<open>fnwe.replace('_', '__')\<close> for the character \<open>_\<close> of any character type\<close>
  "double_underscores underscore fnwe = str_replace fnwe [underscore] [underscore, underscore]"

text \<open>
  A directory is the list of the names of its entries. A pattern is matched against a
  name with \<open>*\<close> for any run of characters and \<open>?\<close> for any one character; the
  bracket classes of \<open>glob\<close> are not modelled, and a match is returned by its name.
\<close>

fun glob_match :: "string \<Rightarrow> string \<Rightarrow> bool" where
  "glob_match [] [] = True"
| "glob_match [] (c # cs) = False"
| "glob_match (p # ps) [] = (p = CHR ''*'' \<and> glob_match ps [])"
| "glob_match (p # ps) (c # cs) =
     (if p = CHR ''*'' then glob_match ps (c # cs) \<or> glob_match (p # ps) cs
      else if p = CHR ''?'' then glob_match ps cs
      else p = c \<and> glob_match ps cs)"

definition glob :: "string list \<Rightarrow> string \<Rightarrow> string list" where
  "glob dir pattern = filter (glob_match pattern) dir"

definition mangled_stem :: "string \<Rightarrow> bool \<Rightarrow> string" where
  \<comment> \<open>The value of \<open>fnwe\<close> that the three patterns are built from.\<close>
  "mangled_stem header_name case_sense_names =
     (let fnwe = path_stem header_name;
          fnwe = str_replace fnwe ''_'' ''__''
      in if \<not> case_sense_names then replace_uppercase_letters fnwe else fnwe)"

definition get_xml_files :: "string \<Rightarrow> string list \<Rightarrow> bool \<Rightarrow> string list" where
  "get_xml_files header_name xml_path case_sense_names =
     (let fnwe = mangled_stem header_name case_sense_names;
          classfiles = glob xml_path (''class'' @ fnwe @ ''.xml'');
          structfiles = glob xml_path (''struct'' @ fnwe @ ''.xml'');
          files8h = glob xml_path (fnwe @ ''_8h*.xml'');
          allfiles = classfiles @ structfiles @ files8h
      in allfiles)"

section \<open>get_xml_compound_infos\<close>

text \<open>
  An element of the parsed tree: its tag, its attributes, its text, its children and its
  tail (the text between its end tag and the next sibling). Text and tail are \<open>None\<close>
  where the document has none.
\<close>

datatype xml =
  Element (el_tag: string) (el_attrib: "(string \<times> string) list")
    (el_text: "string option") (el_children: "xml list") (el_tail: "string option")

definition findall :: "xml \<Rightarrow> string \<Rightarrow> xml list" where
  \<comment> \<open>\<open>node.findall(name)\<close>: the children with that tag, in document order.\<close>
  "findall node name = filter (\<lambda>e. el_tag e = name) (el_children node)"

definition xml_find :: "xml \<Rightarrow> string \<Rightarrow> xml option" where
  \<comment> \<open>\<open>node.find(name)\<close>: the first child with that tag.\<close>
  "xml_find node name = List.find (\<lambda>e. el_tag e = name) (el_children node)"

definition opt_text :: "string option \<Rightarrow> string" where
  "opt_text t = (case t of None \<Rightarrow> [] | Some x \<Rightarrow> x)"

fun itertext :: "xml \<Rightarrow> string" where
  \<comment> \<open>The text of an element and of everything below it, in document order.\<close>
  "itertext (Element t a tx ch tail) =
     opt_text tx @ concat (map (\<lambda>c. itertext c @ opt_text (el_tail c)) ch)"

definition tostring_text :: "xml \<Rightarrow> string" where
  \<comment> \<open>\<open>ET.tostring(e, method='text')\<close> followed by \<open>decode()\<close>, for text in ASCII: the
     text below the element and the element's own tail.\<close>
  "tostring_text e = itertext e @ opt_text (el_tail e)"

fun str_join :: "'a list \<Rightarrow> 'a list list \<Rightarrow> 'a list" where
  \<comment> \<open>\<open>sep.join(parts)\<close>\<close>
  "str_join sep [] = []"
| "str_join sep [p] = p"
| "str_join sep (p # q # ps) = p @ sep @ str_join sep (q # ps)"

definition get_xml_compound_infos ::
  "xml \<Rightarrow> py_error + (string option \<times> string \<times> string)" where
  "get_xml_compound_infos compound =
     (case map_of (el_attrib compound) ''kind'' of
        None \<Rightarrow> Inl KeyError
      | Some kind \<Rightarrow>
          (let names = findall compound ''compoundname'';
               descr = findall compound ''briefdescription''
           in if length names \<noteq> 1 then Inl AssertionError
              else if length descr \<noteq> 1 then Inl AssertionError
              else
                (case (names, descr) of
                   (n0 # _, d0 # _) \<Rightarrow>
                     (case xml_find d0 ''para'' of
                        Some content \<Rightarrow>
                          (let res = tostring_text content;
                               res = str_join (CHR ''\<newline>'' # ''    '')
                                       (str_split res (CHR ''\<newline>''));
                               res = find_and_replace_math res
                           in Inr (el_text n0, kind, res))
                      | None \<Rightarrow> Inr (el_text n0, kind, []))
                 | _ \<Rightarrow> Inl IndexError)))"

section \<open>replace_latex\<close>

definition digit_char :: "nat \<Rightarrow> char" where
  "digit_char d = char_of (48 + d)"

function str_nat :: "nat \<Rightarrow> string" where
  "str_nat n = (if n < 10 then [digit_char n] else str_nat (n div 10) @ [digit_char (n mod 10)])"
  by pat_completeness auto
termination
  by (relation "measure id") auto

declare str_nat.simps [simp del]

definition str_int :: "int \<Rightarrow> string" where
  \<comment> \<open>\<open>str(form)\<close> for an integer key\<close>
  "str_int i = (if i < 0 then CHR ''-'' # str_nat (nat (- i)) else str_nat (nat i))"

definition placeholder :: "int \<Rightarrow> string" where
  \<comment> \<open>\<open>idf\<close>\<close>
  "placeholder form = ''FORMULA'' @ str_int form @ ''_''"

definition is_linebreak :: "char \<Rightarrow> bool" where
  \<comment> \<open>The line boundaries of \<open>str.splitlines\<close> below 256.\<close>
  "is_linebreak c = (let n = (of_char c :: nat) in
     (10 \<le> n \<and> n \<le> 13) \<or> (28 \<le> n \<and> n \<le> 30) \<or> n = 133)"

fun splitlines_keep :: "string \<Rightarrow> string list" where
  \<comment> \<open>\<open>s.splitlines(True)\<close>: a carriage return and the line feed after it are one
     boundary.\<close>
  "splitlines_keep [] = []"
| "splitlines_keep (c # cs) =
     (if c = CHR 0x0D \<and> prefix ''\<newline>'' cs then [c, CHR ''\<newline>''] # splitlines_keep (tl cs)
      else if is_linebreak c then [c] # splitlines_keep cs
      else (case splitlines_keep cs of [] \<Rightarrow> [[c]] | l # ls \<Rightarrow> (c # l) # ls))"

definition text_indent :: "string \<Rightarrow> string \<Rightarrow> string" where
  \<comment> \<open>\<open>textwrap.indent(text, prefix)\<close>: the prefix before every line that is not only
     white space.\<close>
  "text_indent txt pre =
     concat (map (\<lambda>line. if str_strip line \<noteq> [] then pre @ line else line)
               (splitlines_keep txt))"

definition substitute :: "string \<Rightarrow> string \<Rightarrow> string \<Rightarrow> string \<Rightarrow> string" where
  \<comment> \<open>What the inner loop appends to \<open>rst\<close> for one line.\<close>
  "substitute formula_type idf formula line =
     (if formula_type = ''inline'' then str_replace line idf formula
      else
        (let indent = length line - length (str_lstrip line)
         in str_replace line idf (text_indent formula (replicate indent (CHR '' '')))))"

definition replace_form ::
  "string list \<Rightarrow> int \<times> (string \<times> string) list \<Rightarrow> py_error + string list" where
  \<comment> \<open>The body of the loop over one dictionary: \<open>form\<close> with its record
     \<open>latex_dict[form]\<close>, applied to the current \<open>source_lines\<close>.\<close>
  "replace_form source_lines entry =
     (let idf = placeholder (fst entry)
      in case map_of (snd entry) ''latex'' of
           None \<Rightarrow> Inl KeyError
         | Some latex \<Rightarrow>
             (let formula = str_replace latex [CHR 0x5C] [CHR 0x5C, CHR 0x5C]
              in case map_of (snd entry) ''label'' of
                   None \<Rightarrow> Inl KeyError
                 | Some formula_type \<Rightarrow>
                     Inr (map (substitute formula_type idf formula) source_lines)))"

fun replace_forms ::
  "string list \<Rightarrow> (int \<times> (string \<times> string) list) list \<Rightarrow> py_error + string list" where
  "replace_forms source_lines [] = Inr source_lines"
| "replace_forms source_lines (e # es) =
     (case replace_form source_lines e of
        Inl err \<Rightarrow> Inl err
      | Inr ls \<Rightarrow> replace_forms ls es)"

fun replace_latex ::
  "string list \<Rightarrow> (int \<times> (string \<times> string) list) list list \<Rightarrow> py_error + string list" where
  \<comment> \<open>The lines of \<open>inoutfile\<close> and the dictionaries unpickled from \<open>formfiles\<close>, to
     the lines written back to \<open>inoutfile\<close>.\<close>
  "replace_latex source_lines [] = Inr source_lines"
| "replace_latex source_lines (latex_dict # dicts) =
     (case replace_forms source_lines latex_dict of
        Inl err \<Rightarrow> Inl err
      | Inr ls \<Rightarrow> replace_latex ls dicts)"

section \<open>Facts about the string operations\<close>

lemma index_of_first: "c \<notin> set pre \<Longrightarrow> index_of c (pre @ c # post) = Some (length pre)"
  by (induction pre) auto

lemma replace_scan_no_match:
  "\<not> sublist old s \<Longrightarrow> replace_scan s old new = s"
proof (induction s)
  case Nil
  then show ?case by simp
next
  case (Cons c cs)
  have "\<not> prefix old (c # cs)" using Cons.prems by (meson prefix_imp_sublist)
  moreover have "\<not> sublist old cs" using Cons.prems by (meson sublist_Cons_right)
  ultimately show ?case using Cons.IH by simp
qed

lemma replace_scan_skip:
  "c \<notin> set pre \<Longrightarrow> hd old = c \<Longrightarrow>
   replace_scan (pre @ s) old new = pre @ replace_scan s old new"
proof (induction pre)
  case Nil
  then show ?case by simp
next
  case (Cons a pre)
  have "old \<noteq> [] \<Longrightarrow> \<not> prefix old (a # pre @ s)"
    using Cons.prems by (cases old) auto
  then show ?case using Cons by auto
qed

lemma replace_scan_hit:
  "old \<noteq> [] \<Longrightarrow> replace_scan (old @ s) old new = new @ replace_scan s old new"
  by (cases old) auto

lemma str_find_first:
  "c \<notin> set pre \<Longrightarrow> str_find (pre @ c # post) c 0 = int (length pre)"
  by (simp add: str_find_def slice_idx_def index_of_first)

lemma str_find_second:
  assumes "c \<notin> set mid"
  shows "str_find (pre @ c # mid @ c # post) c (int (length pre) + 1)
         = int (length pre + 1 + length mid)"
proof -
  have "slice_idx (length (pre @ c # mid @ c # post)) (int (length pre) + 1) = length pre + 1"
    by (simp add: slice_idx_def)
  moreover have "drop (length pre + 1) (pre @ c # mid @ c # post) = mid @ c # post"
    by simp
  ultimately show ?thesis
    using index_of_first [OF assms, of post] by (simp add: str_find_def Let_def)
qed

lemma str_slice_pair:
  "str_slice (pre @ c # mid @ c # post) (int (length pre)) (int (length pre + 1 + length mid) + 1)
   = c # mid @ [c]"
proof -
  have "nat (int (length pre + 1 + length mid) + 1) = length pre + (length mid + 2)"
    by linarith
  then show ?thesis
    by (simp add: str_slice_def slice_idx_def Let_def)
qed

lemma str_slice_inner: "str_slice (c # mid @ [c]) 1 (- 1) = mid"
  by (simp add: str_slice_def slice_idx_def Let_def)

lemma str_count_pair: "1 < str_count (pre @ c # mid @ c # post) c"
  by (simp add: str_count_def)

lemma str_count_pos_mem:
  assumes "0 < str_count s c"
  shows "c \<in> set s"
proof (rule ccontr)
  assume "c \<notin> set s"
  then have "filter (\<lambda>x. x = c) s = []" by (auto simp: filter_empty_conv)
  with assms show False by (simp add: str_count_def)
qed

lemma str_count_zero: "c \<notin> set s \<Longrightarrow> str_count s c = 0"
  by (auto simp: str_count_def filter_empty_conv)

lemma two_occurrences_split:
  assumes "1 < str_count s c"
  shows "\<exists>pre mid post. s = pre @ c # mid @ c # post \<and> c \<notin> set pre \<and> c \<notin> set mid"
proof -
  from assms have "c \<in> set s" by (intro str_count_pos_mem) simp
  then obtain pre r where s: "s = pre @ c # r" "c \<notin> set pre"
    by (meson split_list_first)
  have "str_count s c = str_count pre c + 1 + str_count r c"
    using s(1) by (simp add: str_count_def)
  with assms s(2) have "0 < str_count r c" by (simp add: str_count_zero)
  then have "c \<in> set r" by (rule str_count_pos_mem)
  then obtain mid post where "r = mid @ c # post" "c \<notin> set mid"
    by (meson split_list_first)
  with s show ?thesis by blast
qed

section \<open>The math normaliser\<close>

lemma find_and_replace_math_pair:
  assumes "CHR ''$'' \<notin> set pre" and "CHR ''$'' \<notin> set mid"
  shows "find_and_replace_math (pre @ CHR ''$'' # mid @ CHR ''$'' # post)
         = pre @ ('':math:'' @ [CHR 0x60] @ str_strip mid @ [CHR 0x60])
           @ str_replace post (CHR ''$'' # mid @ [CHR ''$''])
               ('':math:'' @ [CHR 0x60] @ str_strip mid @ [CHR 0x60])"
proof -
  let ?c = "CHR ''$''"
  let ?s = "pre @ ?c # mid @ ?c # post"
  let ?d = "?c # mid @ [?c]"
  let ?r = "'':math:'' @ [CHR 0x60] @ str_strip mid @ [CHR 0x60]"
  have "find_and_replace_math ?s = str_replace ?s ?d ?r"
    unfolding find_and_replace_math_def Let_def
    using str_count_pair [of pre ?c mid post]
    by (simp only: str_find_first [OF assms(1)] str_find_second [OF assms(2)]
          str_slice_pair str_slice_inner if_True)
  also have "\<dots> = replace_scan (pre @ ?d @ post) ?d ?r"
    by (simp add: str_replace_def)
  also have "\<dots> = pre @ replace_scan (?d @ post) ?d ?r"
    using assms(1) by (intro replace_scan_skip) simp_all
  also have "replace_scan (?d @ post) ?d ?r = ?r @ replace_scan post ?d ?r"
    by (intro replace_scan_hit) simp
  finally show ?thesis by (simp add: str_replace_def)
qed

text \<open>
  C8. \<open>find_and_replace_math\<close> turns \<open>energy $E=mc^2$ conserved\<close> into
  \<open>energy :math:`E=mc^2` conserved\<close> (the grave accent is the character 0x60), and
  it returns every input with no or one dollar sign unchanged.
\<close>

theorem find_and_replace_math_example_and_few_dollars:
  "find_and_replace_math ''energy $E=mc^2$ conserved''
     = ''energy :math:'' @ [CHR 0x60] @ ''E=mc^2'' @ [CHR 0x60] @ '' conserved''
   \<and> (\<forall>s. str_count s (CHR ''$'') \<le> 1 \<longrightarrow> find_and_replace_math s = s)"
proof
  show "find_and_replace_math ''energy $E=mc^2$ conserved''
     = ''energy :math:'' @ [CHR 0x60] @ ''E=mc^2'' @ [CHR 0x60] @ '' conserved''"
    by code_simp
  show "\<forall>s. str_count s (CHR ''$'') \<le> 1 \<longrightarrow> find_and_replace_math s = s"
    by (simp add: find_and_replace_math_def)
qed

theorem find_and_replace_math_few_dollars_witness:
  "str_count ''price: 5$ each'' (CHR ''$'') \<le> 1
   \<and> find_and_replace_math ''price: 5$ each'' = ''price: 5$ each''
   \<and> str_count ''no formula'' (CHR ''$'') \<le> 1
   \<and> find_and_replace_math ''no formula'' = ''no formula''"
proof -
  have a: "str_count ''price: 5$ each'' (CHR ''$'') \<le> 1" by code_simp
  have b: "str_count ''no formula'' (CHR ''$'') \<le> 1" by code_simp
  from find_and_replace_math_example_and_few_dollars a b show ?thesis by blast
qed

text \<open>
  C1, as the claim states it, fails: \<open>replace\<close> rewrites every occurrence of the text
  of the first pair, so in \<open>$x$ and $x$\<close> the second pair is converted as well and
  does not appear in the output.
\<close>

theorem find_and_replace_math_later_pair_counterexample:
  "1 < str_count ''$x$ and $x$'' (CHR ''$'')
   \<and> find_and_replace_math ''$x$ and $x$''
       = '':math:'' @ [CHR 0x60] @ ''x'' @ [CHR 0x60] @ '' and :math:'' @ [CHR 0x60] @ ''x'' @ [CHR 0x60]
   \<and> find_and_replace_math ''$x$ and $x$''
       \<noteq> '':math:'' @ [CHR 0x60] @ ''x'' @ [CHR 0x60] @ '' and $x$''
   \<and> \<not> sublist ''$x$'' (find_and_replace_math ''$x$ and $x$'')"
  by code_simp

text \<open>
  C1, amended. An input with two or more dollar signs is \<open>pre $ mid $ post\<close> with no
  dollar sign in \<open>pre\<close> and \<open>mid\<close>. The output is \<open>pre\<close> unchanged, the role
  \<open>:math:`...`\<close> around the stripped \<open>mid\<close>, and \<open>post\<close> in which every further
  occurrence of the text \<open>$ mid $\<close> is replaced by the same role. When that text does
  not occur in \<open>post\<close>, all of \<open>post\<close> appears exactly as in the input.
\<close>

theorem find_and_replace_math_first_pair:
  assumes "1 < str_count content (CHR ''$'')"
  shows "\<exists>pre mid post.
           content = pre @ CHR ''$'' # mid @ CHR ''$'' # post
         \<and> CHR ''$'' \<notin> set pre \<and> CHR ''$'' \<notin> set mid
         \<and> find_and_replace_math content
             = pre @ ('':math:'' @ [CHR 0x60] @ str_strip mid @ [CHR 0x60])
               @ str_replace post (CHR ''$'' # mid @ [CHR ''$''])
                   ('':math:'' @ [CHR 0x60] @ str_strip mid @ [CHR 0x60])
         \<and> (\<not> sublist (CHR ''$'' # mid @ [CHR ''$'']) post \<longrightarrow>
              find_and_replace_math content
                = pre @ ('':math:'' @ [CHR 0x60] @ str_strip mid @ [CHR 0x60]) @ post)"
proof -
  from two_occurrences_split [OF assms]
  obtain pre mid post where
    c: "content = pre @ CHR ''$'' # mid @ CHR ''$'' # post"
    and p: "CHR ''$'' \<notin> set pre" and m: "CHR ''$'' \<notin> set mid"
    by blast
  let ?d = "CHR ''$'' # mid @ [CHR ''$'']"
  let ?r = "'':math:'' @ [CHR 0x60] @ str_strip mid @ [CHR 0x60]"
  have e: "find_and_replace_math content = pre @ ?r @ str_replace post ?d ?r"
    unfolding c by (rule find_and_replace_math_pair [OF p m])
  have "\<not> sublist ?d post \<Longrightarrow> str_replace post ?d ?r = post"
    by (simp add: str_replace_def replace_scan_no_match)
  with e have "\<not> sublist ?d post \<longrightarrow> find_and_replace_math content = pre @ ?r @ post"
    by simp
  with c p m e show ?thesis by blast
qed

theorem find_and_replace_math_first_pair_witness:
  "1 < str_count ''a $ x $ b $y$'' (CHR ''$'')
   \<and> (\<exists>pre mid post.
           ''a $ x $ b $y$'' = pre @ CHR ''$'' # mid @ CHR ''$'' # post
         \<and> CHR ''$'' \<notin> set pre \<and> CHR ''$'' \<notin> set mid
         \<and> find_and_replace_math ''a $ x $ b $y$''
             = pre @ ('':math:'' @ [CHR 0x60] @ str_strip mid @ [CHR 0x60])
               @ str_replace post (CHR ''$'' # mid @ [CHR ''$''])
                   ('':math:'' @ [CHR 0x60] @ str_strip mid @ [CHR 0x60])
         \<and> (\<not> sublist (CHR ''$'' # mid @ [CHR ''$'']) post \<longrightarrow>
              find_and_replace_math ''a $ x $ b $y$''
                = pre @ ('':math:'' @ [CHR 0x60] @ str_strip mid @ [CHR 0x60]) @ post))
   \<and> find_and_replace_math ''a $ x $ b $y$''
       = ''a :math:'' @ [CHR 0x60] @ ''x'' @ [CHR 0x60] @ '' b $y$''"
proof -
  have h: "1 < str_count ''a $ x $ b $y$'' (CHR ''$'')" by code_simp
  have v: "find_and_replace_math ''a $ x $ b $y$''
       = ''a :math:'' @ [CHR 0x60] @ ''x'' @ [CHR 0x60] @ '' b $y$''" by code_simp
  from h find_and_replace_math_first_pair [OF h] v show ?thesis by blast
qed

section \<open>The configuration parser on concrete files\<close>

lemma conf_output_directory:
  "config_lines ([], None) (conf_of ''OUTPUT_DIRECTORY = build\<newline>  continued\<newline>'')
   = Inr ([(''OUTPUT_DIRECTORY'', '' buildcontinued'')],
          Some [''OUTPUT_DIRECTORY '', '' build''])"
  by code_simp

lemma conf_predefined:
  "config_lines ([], None) (conf_of ''PREDEFINED = DEBUG=1\<newline>'')
   = Inr ([(''PREDEFINED'', '' DEBUG'')], Some [''PREDEFINED '', '' DEBUG'', ''1''])"
  by code_simp

text \<open>
  C2. The line \<open>PREDEFINED = DEBUG=1\<close> is cut at both equals signs and only the text
  between the first and the second is stored: the value is \<open>" DEBUG"\<close> and the rest
  of the right-hand side, \<open>=1\<close>, is lost.
\<close>

theorem parse_doxygen_config_second_equals:
  "parse_doxygen_config [''Doxyfile'' \<mapsto> ''PREDEFINED = DEBUG=1\<newline>''] ''Doxyfile''
   = Inr [(''PREDEFINED'', '' DEBUG'')]"
  by (simp add: parse_doxygen_config_def conf_predefined)

text \<open>
  C3, as the claim states it, fails: every line is stripped before it is used, so the
  continuation is appended without its leading blanks and without the line feed.
\<close>

theorem parse_doxygen_config_verbatim_counterexample:
  "parse_doxygen_config
     [''Doxyfile'' \<mapsto> ''OUTPUT_DIRECTORY = build\<newline>  continued\<newline>''] ''Doxyfile''
   \<noteq> Inr [(''OUTPUT_DIRECTORY'', '' build  continued\<newline>'')]"
  by (simp add: parse_doxygen_config_def conf_output_directory)

text \<open>
  C3, amended. On a file whose content is the two lines \<open>OUTPUT_DIRECTORY = build\<close>
  and \<open>  continued\<close>, \<open>parse_doxygen_config\<close> returns the mapping with the one key
  \<open>OUTPUT_DIRECTORY\<close> and the value \<open>" buildcontinued"\<close>: the stripped continuation
  line is appended to the value.
\<close>

theorem parse_doxygen_config_continuation_stripped:
  "fs filename = Some ''OUTPUT_DIRECTORY = build\<newline>  continued\<newline>'' \<Longrightarrow>
   parse_doxygen_config fs filename = Inr [(''OUTPUT_DIRECTORY'', '' buildcontinued'')]"
  by (simp add: parse_doxygen_config_def conf_output_directory)

theorem parse_doxygen_config_continuation_stripped_witness:
  "[''Doxyfile'' \<mapsto> ''OUTPUT_DIRECTORY = build\<newline>  continued\<newline>''] ''Doxyfile''
     = Some ''OUTPUT_DIRECTORY = build\<newline>  continued\<newline>''
   \<and> parse_doxygen_config
     [''Doxyfile'' \<mapsto> ''OUTPUT_DIRECTORY = build\<newline>  continued\<newline>''] ''Doxyfile''
     = Inr [(''OUTPUT_DIRECTORY'', '' buildcontinued'')]"
  using parse_doxygen_config_continuation_stripped
    [of "[''Doxyfile'' \<mapsto> ''OUTPUT_DIRECTORY = build\<newline>  continued\<newline>'']" "''Doxyfile''"]
  by simp

section \<open>File names\<close>

lemma underscore_not_upper: "\<not> py_isupper (CHR ''_'')"
  by (simp add: py_isupper_def)

lemma py_lower_not_upper:
  assumes "py_isupper c"
  shows "\<not> py_isupper (char_of ((of_char c :: nat) + 32))"
proof -
  let ?n = "of_char c :: nat"
  from assms have r: "(65 \<le> ?n \<and> ?n \<le> 90) \<or> (192 \<le> ?n \<and> ?n \<le> 222)"
    by (auto simp: py_isupper_def Let_def)
  then have "?n + 32 < 256" by auto
  then have "(of_char (char_of (?n + 32)) :: nat) = ?n + 32"
    by (simp add: of_char_of)
  with r show ?thesis by (auto simp: py_isupper_def Let_def)
qed

lemma replace_scan_single:
  "replace_scan s [a] new = concat (map (\<lambda>c. if c = a then new else [c]) s)"
  by (induction s) auto

lemma replace_uppercase_letters_instance:
  "replace_uppercase_letters s = replace_uppercase_letters_by py_isupper py_lower (CHR ''_'') s"
  by (simp add: replace_uppercase_letters_def replace_uppercase_letters_by_def)

lemma double_underscores_instance: "str_replace s ''_'' ''__'' = double_underscores (CHR ''_'') s"
  by (simp add: double_underscores_def)

lemma py_lower_has_no_upper: "py_isupper c \<longrightarrow> (\<forall>x\<in>set (py_lower c). \<not> py_isupper x)"
proof (intro impI ballI)
  fix x
  assume u: "py_isupper c" and "x \<in> set (py_lower c)"
  then have "x = char_of ((of_char c :: nat) + 32)" by (simp add: py_lower_def)
  then show "\<not> py_isupper x" using py_lower_not_upper [OF u] by blast
qed

lemma fold_by_no_upper:
  assumes "\<not> isupper u"
    and "\<forall>c\<in>set s. isupper c \<longrightarrow> (\<forall>x\<in>set (lower c). \<not> isupper x)"
  shows "\<forall>x\<in>set (replace_uppercase_letters_by isupper lower u s). \<not> isupper x"
  using assms(2)
proof (induction s)
  case Nil
  show ?case by (simp add: replace_uppercase_letters_by_def)
next
  case (Cons a s)
  let ?F = "replace_uppercase_letters_by isupper lower u"
  from Cons.prems have "\<forall>c\<in>set s. isupper c \<longrightarrow> (\<forall>x\<in>set (lower c). \<not> isupper x)"
    by (meson list.set_intros(2))
  then have ih: "\<forall>x\<in>set (?F s). \<not> isupper x" by (rule Cons.IH)
  have h: "\<forall>x\<in>set (if isupper a then u # lower a else [a]). \<not> isupper x"
  proof (cases "isupper a")
    case True
    with Cons.prems have "\<forall>x\<in>set (lower a). \<not> isupper x"
      by (meson list.set_intros(1))
    then show ?thesis
      unfolding if_P [OF True] using assms(1) by (metis set_ConsD)
  next
    case False
    show ?thesis
      unfolding if_not_P [OF False] using False by (metis empty_iff empty_set set_ConsD)
  qed
  have e: "?F (a # s) = (if isupper a then u # lower a else [a]) @ ?F s"
    by (simp add: replace_uppercase_letters_by_def)
  show ?case unfolding e set_append using ih h by blast
qed

lemma fold_by_id:
  "\<forall>c\<in>set t. \<not> isupper c \<Longrightarrow> replace_uppercase_letters_by isupper lower u t = t"
  by (induction t) (auto simp: replace_uppercase_letters_by_def)

lemma double_underscores_concat:
  "double_underscores u t = concat (map (\<lambda>c. if c = u then [u, u] else [c]) t)"
  by (simp add: double_underscores_def str_replace_def replace_scan_single)

lemma double_underscores_no_upper:
  assumes "\<not> isupper u" and "\<forall>c\<in>set t. \<not> isupper c"
  shows "\<forall>c\<in>set (double_underscores u t). \<not> isupper c"
  using assms by (auto simp: double_underscores_concat split: if_splits)

lemma double_underscores_length:
  "length (double_underscores u t) = length t + str_count t u"
  by (induction t) (auto simp: double_underscores_concat str_count_def)

lemma str_count_mem_pos: "u \<in> set t \<Longrightarrow> 0 < str_count t u"
  by (induction t) (auto simp: str_count_def)

lemma double_underscores_changes: "u \<in> set t \<Longrightarrow> double_underscores u t \<noteq> t"
  using double_underscores_length [of u t] str_count_mem_pos [of u t] by auto

lemma underscore_in_fold:
  "\<exists>c\<in>set s. isupper c \<Longrightarrow> u \<in> set (replace_uppercase_letters_by isupper lower u s)"
  by (induction s) (auto simp: replace_uppercase_letters_by_def)

lemma underscore_in_double: "u \<in> set t \<Longrightarrow> u \<in> set (double_underscores u t)"
  by (auto simp: double_underscores_concat)

lemma capital_kept_by_lower:
  assumes "isupper c" and "lower c = [c]"
  shows "replace_uppercase_letters_by isupper lower u [c] = [u, c]
       \<and> replace_uppercase_letters_by isupper lower u [u, c] \<noteq> [u, c]"
proof
  show a: "replace_uppercase_letters_by isupper lower u [c] = [u, c]"
    using assms by (simp add: replace_uppercase_letters_by_def)
  have "length (replace_uppercase_letters_by isupper lower u [u, c]) \<ge> 3"
    using assms by (simp add: replace_uppercase_letters_by_def)
  then show "replace_uppercase_letters_by isupper lower u [u, c] \<noteq> [u, c]" by auto
qed

text \<open>
  C5, as the claim states it, fails: the stem \<open>TimeStepping\<close> has uppercase letters,
  folding it and doubling the underscores gives \<open>__time__stepping\<close>, and the same
  two steps on that output give \<open>____time____stepping\<close>. In the order of
  \<open>get_xml_files\<close> (underscores doubled first, then folded) the stem gives
  \<open>_time_stepping\<close> and that, as a stem, gives \<open>__time__stepping\<close>.
\<close>

theorem fold_then_double_idempotent_counterexample:
  "str_replace (replace_uppercase_letters ''TimeStepping'') ''_'' ''__'' = ''__time__stepping''
   \<and> str_replace (replace_uppercase_letters ''__time__stepping'') ''_'' ''__''
       = ''____time____stepping''
   \<and> mangled_stem ''TimeStepping'' False = ''_time_stepping''
   \<and> mangled_stem ''_time_stepping'' False = ''__time__stepping''"
  by code_simp

text \<open>
  C5, amended. Take a stem of any characters in which \<open>lower()\<close> of every uppercase
  letter has no uppercase letter (so it is for every letter below code point 256; a
  capital that \<open>lower()\<close> keeps gets one more underscore at each pass, see
  \<open>capital_kept_by_lower\<close>), \<open>_\<close> not being uppercase. Then the case folding is
  idempotent on folded input: \<open>replace_uppercase_letters\<close> applied to its own output,
  or to the output of "fold, then double the underscores", returns that output. The
  composite is not idempotent: applied to its own output it returns that output with
  every underscore doubled, which is another string whenever the stem has an uppercase
  letter.
\<close>

theorem replace_uppercase_letters_idempotent:
  assumes "\<not> isupper u"
    and "\<forall>c\<in>set stem. isupper c \<longrightarrow> (\<forall>x\<in>set (lower c). \<not> isupper x)"
  shows "replace_uppercase_letters_by isupper lower u
           (replace_uppercase_letters_by isupper lower u stem)
         = replace_uppercase_letters_by isupper lower u stem
       \<and> replace_uppercase_letters_by isupper lower u
           (double_underscores u (replace_uppercase_letters_by isupper lower u stem))
         = double_underscores u (replace_uppercase_letters_by isupper lower u stem)
       \<and> double_underscores u (replace_uppercase_letters_by isupper lower u
           (double_underscores u (replace_uppercase_letters_by isupper lower u stem)))
         = double_underscores u
             (double_underscores u (replace_uppercase_letters_by isupper lower u stem))
       \<and> ((\<exists>c\<in>set stem. isupper c) \<longrightarrow>
            double_underscores u (replace_uppercase_letters_by isupper lower u
              (double_underscores u (replace_uppercase_letters_by isupper lower u stem)))
            \<noteq> double_underscores u (replace_uppercase_letters_by isupper lower u stem))"
proof -
  let ?F = "replace_uppercase_letters_by isupper lower u"
  let ?D = "double_underscores u"
  have n: "\<forall>x\<in>set (?F stem). \<not> isupper x" by (rule fold_by_no_upper [OF assms])
  have 1: "?F (?F stem) = ?F stem" by (rule fold_by_id [OF n])
  have "\<forall>x\<in>set (?D (?F stem)). \<not> isupper x"
    by (rule double_underscores_no_upper [OF assms(1) n])
  then have 2: "?F (?D (?F stem)) = ?D (?F stem)" by (rule fold_by_id)
  then have 3: "?D (?F (?D (?F stem))) = ?D (?D (?F stem))" by simp
  have 4: "?D (?F (?D (?F stem))) \<noteq> ?D (?F stem)" if "\<exists>c\<in>set stem. isupper c"
  proof -
    from that have "u \<in> set (?F stem)" by (rule underscore_in_fold)
    then have "u \<in> set (?D (?F stem))" by (rule underscore_in_double)
    then have "?D (?D (?F stem)) \<noteq> ?D (?F stem)" by (rule double_underscores_changes)
    with 3 show ?thesis by simp
  qed
  from 1 2 3 4 show ?thesis by blast
qed

theorem replace_uppercase_letters_idempotent_witness:
  "py_isupper (CHR ''T'')
   \<and> py_lower (CHR ''T'') = ''t''
   \<and> py_isupper (CHR ''S'')
   \<and> py_lower (CHR ''S'') = ''s''
   \<and> replace_uppercase_letters ''TimeStepping'' = ''_time_stepping''
   \<and> replace_uppercase_letters (replace_uppercase_letters ''TimeStepping'')
       = replace_uppercase_letters ''TimeStepping''
   \<and> str_replace (replace_uppercase_letters
         (str_replace (replace_uppercase_letters ''TimeStepping'') ''_'' ''__'')) ''_'' ''__''
       \<noteq> str_replace (replace_uppercase_letters ''TimeStepping'') ''_'' ''__''"
proof -
  have h1: "\<not> py_isupper (CHR ''_'')" by (rule underscore_not_upper)
  have h2: "\<forall>c\<in>set ''TimeStepping''. py_isupper c \<longrightarrow> (\<forall>x\<in>set (py_lower c). \<not> py_isupper x)"
    by (intro ballI) (rule py_lower_has_no_upper)
  have e: "\<exists>c\<in>set ''TimeStepping''. py_isupper c"
  proof
    show "CHR ''T'' \<in> set ''TimeStepping''" by simp
    show "py_isupper (CHR ''T'')" by (simp add: py_isupper_def)
  qed
  have v: "replace_uppercase_letters ''TimeStepping'' = ''_time_stepping''" by code_simp
  note t = replace_uppercase_letters_idempotent [of py_isupper "CHR ''_''" "''TimeStepping''"
      py_lower, OF h1 h2]
  have a: "replace_uppercase_letters (replace_uppercase_letters ''TimeStepping'')
           = replace_uppercase_letters ''TimeStepping''"
    unfolding replace_uppercase_letters_instance by (rule t [THEN conjunct1])
  have b: "str_replace (replace_uppercase_letters
         (str_replace (replace_uppercase_letters ''TimeStepping'') ''_'' ''__'')) ''_'' ''__''
       \<noteq> str_replace (replace_uppercase_letters ''TimeStepping'') ''_'' ''__''"
    unfolding replace_uppercase_letters_instance double_underscores_instance
    by (rule t [THEN conjunct2, THEN conjunct2, THEN conjunct2, rule_format, OF e])
  have c: "py_isupper (CHR ''T'')" "py_lower (CHR ''T'') = ''t''"
    "py_isupper (CHR ''S'')" "py_lower (CHR ''S'') = ''s''"
    by code_simp+
  from c v a b show ?thesis by (intro conjI)
qed

lemma mangled_time_stepping: "mangled_stem ''TimeStepping.h'' False = ''_time_stepping''"
  by code_simp

lemma time_stepping_patterns:
  "\<not> glob_match ''class_time_stepping.xml'' ''class_time__stepping.xml''"
  "\<not> glob_match ''struct_time_stepping.xml'' ''class_time__stepping.xml''"
  "\<not> glob_match ''_time_stepping_8h*.xml'' ''class_time__stepping.xml''"
  "glob_match ''class_time_stepping.xml'' ''class_time_stepping.xml''"
  by code_simp+

text \<open>
  C6, as the claim states it, fails: for \<open>TimeStepping.h\<close> in the case-insensitive
  mode the patterns are built from \<open>_time_stepping\<close>, with one underscore before
  each folded letter, and \<open>class_time__stepping.xml\<close> matches none of them.
\<close>

theorem get_xml_files_double_underscore_counterexample:
  "get_xml_files ''TimeStepping.h'' [''class_time__stepping.xml''] False = []"
  by (simp add: get_xml_files_def mangled_time_stepping glob_def time_stepping_patterns)

text \<open>
  C6, amended. \<open>get_xml_files\<close> with \<open>case_sense_names=False\<close> for the header
  \<open>TimeStepping.h\<close> on a directory that contains \<open>class_time_stepping.xml\<close> returns a
  list containing that file; \<open>class_time__stepping.xml\<close> is in the list for no
  directory.
\<close>

theorem get_xml_files_time_stepping:
  "(''class_time_stepping.xml'' \<in> set xml_path \<longrightarrow>
      ''class_time_stepping.xml'' \<in> set (get_xml_files ''TimeStepping.h'' xml_path False))
   \<and> ''class_time__stepping.xml'' \<notin> set (get_xml_files ''TimeStepping.h'' xml_path False)"
  by (simp add: get_xml_files_def mangled_time_stepping glob_def time_stepping_patterns)

theorem get_xml_files_time_stepping_witness:
  "''class_time_stepping.xml'' \<in> set [''class_time__stepping.xml'', ''class_time_stepping.xml'']
   \<and> ''class_time_stepping.xml''
       \<in> set (get_xml_files ''TimeStepping.h''
                [''class_time__stepping.xml'', ''class_time_stepping.xml''] False)
   \<and> ''class_time__stepping.xml''
       \<notin> set (get_xml_files ''TimeStepping.h''
                [''class_time__stepping.xml'', ''class_time_stepping.xml''] False)"
  using get_xml_files_time_stepping
    [of "[''class_time__stepping.xml'', ''class_time_stepping.xml'']"]
  by simp

section \<open>The compound extractor\<close>

text \<open>
  C7, as the claim states it, fails: the attribute \<open>kind\<close> is read before the
  assertions, so a node without it and without a \<open>compoundname\<close> child fails with the
  key error of the lookup and not with an assertion.
\<close>

theorem get_xml_compound_infos_no_kind_counterexample:
  "length (findall (Element ''compounddef'' [] None [] None) ''compoundname'') \<noteq> 1
   \<and> get_xml_compound_infos (Element ''compounddef'' [] None [] None) = Inl KeyError
   \<and> get_xml_compound_infos (Element ''compounddef'' [] None [] None) \<noteq> Inl AssertionError"
  by code_simp

text \<open>
  C7, amended. For a compound node that has the attribute \<open>kind\<close>,
  \<open>get_xml_compound_infos\<close> fails with an assertion whenever the node does not have
  exactly one \<open>compoundname\<close> child and exactly one \<open>briefdescription\<close> child; when it
  has exactly one of each and the brief description has no \<open>para\<close> child, it returns
  the text of the name, the kind and the empty string.
\<close>

theorem get_xml_compound_infos_assertions:
  assumes "map_of (el_attrib compound) ''kind'' = Some kind"
  shows "(length (findall compound ''compoundname'') \<noteq> 1
          \<or> length (findall compound ''briefdescription'') \<noteq> 1
          \<longrightarrow> get_xml_compound_infos compound = Inl AssertionError)
       \<and> (findall compound ''compoundname'' = [name]
          \<and> findall compound ''briefdescription'' = [descr]
          \<and> xml_find descr ''para'' = None
          \<longrightarrow> get_xml_compound_infos compound = Inr (el_text name, kind, []))"
proof (intro conjI impI)
  assume "length (findall compound ''compoundname'') \<noteq> 1
          \<or> length (findall compound ''briefdescription'') \<noteq> 1"
  then show "get_xml_compound_infos compound = Inl AssertionError"
    using assms by (simp add: get_xml_compound_infos_def Let_def)
next
  assume "findall compound ''compoundname'' = [name]
          \<and> findall compound ''briefdescription'' = [descr]
          \<and> xml_find descr ''para'' = None"
  then show "get_xml_compound_infos compound = Inr (el_text name, kind, [])"
    using assms by (simp add: get_xml_compound_infos_def Let_def)
qed

theorem get_xml_compound_infos_assertions_witness:
  "map_of (el_attrib (Element ''compounddef'' [(''kind'', ''class'')] None [] None)) ''kind''
     = Some ''class''
   \<and> length (findall (Element ''compounddef'' [(''kind'', ''class'')] None [] None)
               ''compoundname'') \<noteq> 1
   \<and> get_xml_compound_infos (Element ''compounddef'' [(''kind'', ''class'')] None [] None)
       = Inl AssertionError
   \<and> map_of (el_attrib (Element ''compounddef'' [(''kind'', ''class'')] None
         [Element ''compoundname'' [] (Some ''TimeStepping'') [] None,
          Element ''briefdescription'' [] None [] None] None)) ''kind'' = Some ''class''
   \<and> get_xml_compound_infos (Element ''compounddef'' [(''kind'', ''class'')] None
         [Element ''compoundname'' [] (Some ''TimeStepping'') [] None,
          Element ''briefdescription'' [] None [] None] None)
       = Inr (Some ''TimeStepping'', ''class'', [])"
proof -
  let ?A = "Element ''compounddef'' [(''kind'', ''class'')] None [] None"
  let ?N = "Element ''compoundname'' [] (Some ''TimeStepping'') [] None"
  let ?D = "Element ''briefdescription'' [] None [] None"
  let ?B = "Element ''compounddef'' [(''kind'', ''class'')] None [?N, ?D] None"
  have a: "map_of (el_attrib ?A) ''kind'' = Some ''class''" by simp
  have a1: "length (findall ?A ''compoundname'') \<noteq> 1" by (simp add: findall_def)
  have b: "map_of (el_attrib ?B) ''kind'' = Some ''class''" by simp
  have b1: "findall ?B ''compoundname'' = [?N]" by (simp add: findall_def)
  have b2: "findall ?B ''briefdescription'' = [?D]" by (simp add: findall_def)
  have b3: "xml_find ?D ''para'' = None" by (simp add: xml_find_def)
  have "get_xml_compound_infos ?A = Inl AssertionError"
    using get_xml_compound_infos_assertions [OF a] a1 by blast
  moreover have "get_xml_compound_infos ?B = Inr (el_text ?N, ''class'', [])"
    using get_xml_compound_infos_assertions [OF b, of ?N ?D] b1 b2 b3 by blast
  ultimately show ?thesis using a a1 b by simp
qed

section \<open>Lines of the configuration file\<close>



















section \<open>The formula escaper\<close>

lemma str_join_cons: "ps \<noteq> [] \<Longrightarrow> str_join sep (p # ps) = p @ sep @ str_join sep ps"
  by (cases ps) simp_all

lemma replace_scan_parts:
  "old \<noteq> [] \<Longrightarrow>
   \<exists>parts. parts \<noteq> [] \<and> s = str_join old parts \<and> replace_scan s old new = str_join new parts
     \<and> (\<forall>p\<in>set parts. \<not> sublist old p)"
proof (induction s old new rule: replace_scan.induct)
  case (1 old new)
  have "[[]] \<noteq> [] \<and> [] = str_join old [[]] \<and> replace_scan [] old new = str_join new [[]]
     \<and> (\<forall>p\<in>set [[]]. \<not> sublist old p)"
    using 1 by simp
  then show ?case by blast
next
  case (2 c cs old new)
  show ?case
  proof (cases "prefix old (c # cs)")
    case True
    then obtain zs where zs: "c # cs = old @ zs" by (auto elim: prefixE)
    then have d: "drop (length old) (c # cs) = zs" by simp
    from "2.IH"(1) True "2.prems" d obtain parts where
      p: "parts \<noteq> []" "zs = str_join old parts" "replace_scan zs old new = str_join new parts"
         "\<forall>p\<in>set parts. \<not> sublist old p"
      by auto
    have "replace_scan (c # cs) old new = new @ replace_scan zs old new"
      using True "2.prems" d by simp
    with p zs "2.prems" have "[] # parts \<noteq> [] \<and> c # cs = str_join old ([] # parts)
       \<and> replace_scan (c # cs) old new = str_join new ([] # parts)
       \<and> (\<forall>p\<in>set ([] # parts). \<not> sublist old p)"
      by (simp add: str_join_cons)
    then show ?thesis by blast
  next
    case False
    with "2.IH"(2) "2.prems" obtain parts where
      p: "parts \<noteq> []" "cs = str_join old parts" "replace_scan cs old new = str_join new parts"
         "\<forall>p\<in>set parts. \<not> sublist old p"
      by auto
    from p(1) obtain q qs where q: "parts = q # qs" by (cases parts) auto
    have "\<not> prefix old (c # q)"
    proof
      assume a: "prefix old (c # q)"
      show False
      proof (cases qs)
        case Nil
        with p(2) q a False show False by simp
      next
        case (Cons r rs)
        then have "cs = q @ old @ str_join old qs" using p(2) q by (simp add: str_join_cons)
        with a have "prefix old (c # cs)" by (metis append_Cons prefix_prefix)
        with False show False by simp
      qed
    qed
    with p(4) q have n: "\<not> sublist old (c # q)" by (simp add: sublist_Cons_right)
    have r: "replace_scan (c # cs) old new = c # replace_scan cs old new"
      using False by simp
    have j: "str_join sep ((c # q) # qs) = c # str_join sep (q # qs)" for sep :: "'a list"
      by (cases qs) simp_all
    from p q n r j have "(c # q) # qs \<noteq> [] \<and> c # cs = str_join old ((c # q) # qs)
       \<and> replace_scan (c # cs) old new = str_join new ((c # q) # qs)
       \<and> (\<forall>p\<in>set ((c # q) # qs). \<not> sublist old p)"
      by simp
    then show ?thesis by blast
  qed
qed


lemma replace_scan_head:
  assumes "replace_scan xs old (b # new') = y # Z" and "y \<noteq> b"
  shows "\<exists>xs'. xs = y # xs' \<and> Z = replace_scan xs' old (b # new')"
proof (cases xs)
  case Nil
  with assms show ?thesis by simp
next
  case (Cons x xs')
  show ?thesis
  proof (cases "old \<noteq> [] \<and> prefix old (x # xs')")
    case True
    with assms Cons show ?thesis by simp
  next
    case False
    with assms Cons show ?thesis by auto
  qed
qed

lemma sublist_suffix_part: "sublist p zs \<Longrightarrow> sublist p (ys @ zs)"
  by (metis sublist_def append.assoc)

lemma no_double_in_fresh:
  "\<not> sublist double_backslash_dot X \<Longrightarrow> \<not> sublist double_backslash_dot (backslash_dot @ X)"
  by (simp add: double_backslash_dot_def backslash_dot_def sublist_Cons_right)

lemma replace_scan_no_double:
  "\<not> sublist (CHR 0x5C # double_backslash_dot) s \<Longrightarrow>
   \<not> sublist double_backslash_dot (replace_scan s double_backslash_dot backslash_dot)"
proof (induction "length s" arbitrary: s rule: less_induct)
  case less
  let ?old = double_backslash_dot
  let ?new = backslash_dot
  have ne: "?old \<noteq> []" by (simp add: double_backslash_dot_def)
  show ?case
  proof (cases s)
    case Nil
    with ne show ?thesis by simp
  next
    case (Cons c cs)
    show ?thesis
    proof (cases "prefix ?old s")
      case True
      then obtain zs where zs: "s = ?old @ zs" by (auto elim: prefixE)
      then have l: "length zs < length s" using ne by simp
      have "\<not> sublist (CHR 0x5C # ?old) zs"
        using less.prems zs sublist_suffix_part by blast
      from less.hyps [OF l this] have "\<not> sublist ?old (replace_scan zs ?old ?new)" .
      then have "\<not> sublist ?old (?new @ replace_scan zs ?old ?new)"
        by (rule no_double_in_fresh)
      moreover have "replace_scan s ?old ?new = ?new @ replace_scan zs ?old ?new"
        unfolding zs by (rule replace_scan_hit [OF ne])
      ultimately show ?thesis by simp
    next
      case False
      have r: "replace_scan s ?old ?new = c # replace_scan cs ?old ?new"
        using False Cons by simp
      have "\<not> sublist (CHR 0x5C # ?old) cs"
        using less.prems Cons by (simp add: sublist_Cons_right)
      with less.hyps [of cs] Cons have ih: "\<not> sublist ?old (replace_scan cs ?old ?new)"
        by simp
      have "\<not> prefix ?old (c # replace_scan cs ?old ?new)"
      proof
        assume a: "prefix ?old (c # replace_scan cs ?old ?new)"
        then have c: "c = CHR 0x5C" by (simp add: double_backslash_dot_def)
        from a obtain Z where
          z: "replace_scan cs ?old ?new = CHR 0x5C # CHR ''d'' # CHR ''o'' # CHR ''t'' # Z"
          by (auto simp: double_backslash_dot_def prefix_def)
        show False
        proof (cases "prefix ?old cs")
          case True
          then obtain ys where "cs = ?old @ ys" by (auto elim: prefixE)
          with Cons c have "s = [] @ (CHR 0x5C # ?old) @ ys" by simp
          then have "sublist (CHR 0x5C # ?old) s" unfolding sublist_def by blast
          with less.prems show False by simp
        next
          case nf: False
          from z obtain x xs where x: "cs = x # xs" by (cases cs) auto
          with nf z have x1: "x = CHR 0x5C"
            and z1: "replace_scan xs ?old (CHR 0x5C # ''dot'') = CHR ''d'' # CHR ''o'' # CHR ''t'' # Z"
            by (simp_all add: backslash_dot_def)
          from replace_scan_head [OF z1] obtain xs1 where
            x2: "xs = CHR ''d'' # xs1"
            and z2: "CHR ''o'' # CHR ''t'' # Z = replace_scan xs1 ?old (CHR 0x5C # ''dot'')"
            by auto
          from replace_scan_head [OF z2 [symmetric]] obtain xs2 where
            x3: "xs1 = CHR ''o'' # xs2"
            and z3: "CHR ''t'' # Z = replace_scan xs2 ?old (CHR 0x5C # ''dot'')"
            by auto
          from replace_scan_head [OF z3 [symmetric]] obtain xs3 where
            x4: "xs2 = CHR ''t'' # xs3"
            by auto
          have "s = ?old @ xs3"
            using Cons c x x1 x2 x3 x4 by (simp add: double_backslash_dot_def)
          then have "prefix ?old s" by simp
          with False show False by simp
        qed
      qed
      with ih r show ?thesis by (simp add: sublist_Cons_right)
    qed
  qed
qed


lemma read_newlines_no_cr: "CHR 0x0D \<notin> set bytes \<Longrightarrow> read_newlines bytes = bytes"
  by (induction bytes rule: read_newlines.induct) auto

lemma write_newlines_lf: "write_newlines [CHR ''\<newline>''] t = t"
  by (induction t) (auto simp: write_newlines_def)

lemma filter_dot_result:
  "fs xmlfile = Some bytes \<Longrightarrow> utf8_valid bytes \<Longrightarrow>
   \<exists>fs'. filter_dot_in_xml_formulas linesep xmlfile fs = Inr fs'
     \<and> fs' xmlfile
         = Some (write_newlines linesep
                   (str_replace (read_newlines bytes) double_backslash_dot backslash_dot))"
  by (simp add: filter_dot_in_xml_formulas_def Let_def)

lemma filter_dot_invalid:
  "fs xmlfile = Some bytes \<Longrightarrow> \<not> utf8_valid bytes \<Longrightarrow>
   filter_dot_in_xml_formulas linesep xmlfile fs = Inl UnicodeDecodeError"
  by (simp add: filter_dot_in_xml_formulas_def Let_def)

text \<open>
  C4, as the claim states it, fails in both of its parts, here on a platform whose line
  separator is the line feed. The text is scanned once: in a file of three backslashes
  and \<open>dot\<close> the occurrence starts at the second backslash, and the rewritten file is
  two backslashes and \<open>dot\<close>. And the file is read and written in text mode: the file
  \<open>a CR LF b\<close> has no occurrence of the sequence at all, and it is rewritten to
  \<open>a LF b\<close>, without its carriage return.
\<close>

theorem filter_dot_triple_backslash_counterexample:
  "\<not> isl (filter_dot_in_xml_formulas [CHR ''\<newline>''] ''f.xml''
              [''f.xml'' \<mapsto> [CHR 0x5C, CHR 0x5C, CHR 0x5C] @ ''dot''])
   \<and> projr (filter_dot_in_xml_formulas [CHR ''\<newline>''] ''f.xml''
              [''f.xml'' \<mapsto> [CHR 0x5C, CHR 0x5C, CHR 0x5C] @ ''dot'']) ''f.xml''
       = Some double_backslash_dot
   \<and> sublist double_backslash_dot double_backslash_dot
   \<and> \<not> sublist double_backslash_dot (''a'' @ [CHR 0x0D, CHR ''\<newline>''] @ ''b'')
   \<and> \<not> isl (filter_dot_in_xml_formulas [CHR ''\<newline>''] ''f.xml''
              [''f.xml'' \<mapsto> ''a'' @ [CHR 0x0D, CHR ''\<newline>''] @ ''b''])
   \<and> projr (filter_dot_in_xml_formulas [CHR ''\<newline>''] ''f.xml''
              [''f.xml'' \<mapsto> ''a'' @ [CHR 0x0D, CHR ''\<newline>''] @ ''b'']) ''f.xml''
       = Some (''a'' @ [CHR ''\<newline>''] @ ''b'')"
proof -
  let ?t = "[CHR 0x5C, CHR 0x5C, CHR 0x5C] @ ''dot''"
  let ?c = "''a'' @ [CHR 0x0D, CHR ''\<newline>''] @ ''b''"
  have v1: "utf8_valid ?t" by code_simp
  have v2: "utf8_valid ?c" by code_simp
  have r1: "write_newlines [CHR ''\<newline>'']
              (str_replace (read_newlines ?t) double_backslash_dot backslash_dot)
            = double_backslash_dot"
    by code_simp
  have r2: "write_newlines [CHR ''\<newline>'']
              (str_replace (read_newlines ?c) double_backslash_dot backslash_dot)
            = ''a'' @ [CHR ''\<newline>''] @ ''b''"
    by code_simp
  have n: "\<not> sublist double_backslash_dot ?c" by code_simp
  have a: "filter_dot_in_xml_formulas [CHR ''\<newline>''] ''f.xml'' [''f.xml'' \<mapsto> ?t]
           = Inr (([''f.xml'' \<mapsto> ?t](path_stem ''f.xml'' @ ''.tmp'' \<mapsto> double_backslash_dot))
                    (path_stem ''f.xml'' @ ''.tmp'' := None, ''f.xml'' \<mapsto> double_backslash_dot))"
    using v1 r1 by (simp add: filter_dot_in_xml_formulas_def Let_def)
  have b: "filter_dot_in_xml_formulas [CHR ''\<newline>''] ''f.xml'' [''f.xml'' \<mapsto> ?c]
           = Inr (([''f.xml'' \<mapsto> ?c](path_stem ''f.xml'' @ ''.tmp'' \<mapsto> ''a'' @ [CHR ''\<newline>''] @ ''b''))
                    (path_stem ''f.xml'' @ ''.tmp'' := None,
                     ''f.xml'' \<mapsto> ''a'' @ [CHR ''\<newline>''] @ ''b''))"
    using v2 r2 by (simp add: filter_dot_in_xml_formulas_def Let_def)
  show ?thesis unfolding a b using n by simp
qed

text \<open>
  C4, amended. A file whose bytes are not valid UTF-8 makes
  \<open>filter_dot_in_xml_formulas\<close> fail with the decoding error. Otherwise the text read
  (the bytes with \<open>CR LF\<close> and lone \<open>CR\<close> as \<open>LF\<close>) is a list of parts joined by the
  double-backslash-dot sequence, no part containing that sequence, and the file is
  left with the same parts joined by the single-backslash form, each line feed written
  as the line separator: every character of the text read that is outside a replaced
  occurrence is unchanged. The new text contains no double-backslash-dot sequence when
  the text read has no such sequence with a third backslash before it. For a file
  without a carriage return, on a platform whose line separator is the line feed, the
  parts are parts of the bytes themselves, so every byte outside a replaced occurrence
  is unchanged.
\<close>

theorem filter_dot_rewrites_each_occurrence:
  assumes "fs xmlfile = Some bytes"
  shows "(\<not> utf8_valid bytes \<longrightarrow>
            filter_dot_in_xml_formulas linesep xmlfile fs = Inl UnicodeDecodeError)
       \<and> (utf8_valid bytes \<longrightarrow>
            (\<exists>fs' parts.
               filter_dot_in_xml_formulas linesep xmlfile fs = Inr fs'
             \<and> fs' xmlfile = Some (write_newlines linesep (str_join backslash_dot parts))
             \<and> read_newlines bytes = str_join double_backslash_dot parts
             \<and> (\<forall>p\<in>set parts. \<not> sublist double_backslash_dot p)
             \<and> (\<not> sublist (CHR 0x5C # double_backslash_dot) (read_newlines bytes) \<longrightarrow>
                  \<not> sublist double_backslash_dot (str_join backslash_dot parts))
             \<and> (CHR 0x0D \<notin> set bytes \<and> linesep = [CHR ''\<newline>''] \<longrightarrow>
                  bytes = str_join double_backslash_dot parts
                  \<and> fs' xmlfile = Some (str_join backslash_dot parts))))"
proof (intro conjI impI)
  assume "\<not> utf8_valid bytes"
  with assms show "filter_dot_in_xml_formulas linesep xmlfile fs = Inl UnicodeDecodeError"
    by (rule filter_dot_invalid [of fs xmlfile bytes])
next
  assume v: "utf8_valid bytes"
  let ?lines = "read_newlines bytes"
  have ne: "double_backslash_dot \<noteq> []" by (simp add: double_backslash_dot_def)
  then have e: "str_replace ?lines double_backslash_dot backslash_dot
                = replace_scan ?lines double_backslash_dot backslash_dot"
    by (simp add: str_replace_def)
  from filter_dot_result [of fs xmlfile bytes linesep, OF assms v] obtain fs' where
    f: "filter_dot_in_xml_formulas linesep xmlfile fs = Inr fs'"
       "fs' xmlfile
          = Some (write_newlines linesep
                    (str_replace ?lines double_backslash_dot backslash_dot))"
    by blast
  from replace_scan_parts [OF ne, of ?lines backslash_dot] obtain parts where
    p: "?lines = str_join double_backslash_dot parts"
       "replace_scan ?lines double_backslash_dot backslash_dot = str_join backslash_dot parts"
       "\<forall>p\<in>set parts. \<not> sublist double_backslash_dot p"
    by blast
  have f2: "fs' xmlfile = Some (write_newlines linesep (str_join backslash_dot parts))"
    using f(2) e p(2) by simp
  have t: "\<not> sublist (CHR 0x5C # double_backslash_dot) ?lines \<longrightarrow>
        \<not> sublist double_backslash_dot (str_join backslash_dot parts)"
    using replace_scan_no_double [of ?lines] p(2) by simp
  have b: "CHR 0x0D \<notin> set bytes \<and> linesep = [CHR ''\<newline>''] \<longrightarrow>
           bytes = str_join double_backslash_dot parts
           \<and> fs' xmlfile = Some (str_join backslash_dot parts)"
    using p(1) f2 by (auto simp: read_newlines_no_cr write_newlines_lf)
  show "\<exists>fs' parts.
               filter_dot_in_xml_formulas linesep xmlfile fs = Inr fs'
             \<and> fs' xmlfile = Some (write_newlines linesep (str_join backslash_dot parts))
             \<and> read_newlines bytes = str_join double_backslash_dot parts
             \<and> (\<forall>p\<in>set parts. \<not> sublist double_backslash_dot p)
             \<and> (\<not> sublist (CHR 0x5C # double_backslash_dot) (read_newlines bytes) \<longrightarrow>
                  \<not> sublist double_backslash_dot (str_join backslash_dot parts))
             \<and> (CHR 0x0D \<notin> set bytes \<and> linesep = [CHR ''\<newline>''] \<longrightarrow>
                  bytes = str_join double_backslash_dot parts
                  \<and> fs' xmlfile = Some (str_join backslash_dot parts))"
    using f(1) f2 p(1) p(3) t b by (intro exI conjI)
qed

theorem filter_dot_rewrites_each_occurrence_witness:
  "[''f.xml'' \<mapsto> ''x = '' @ double_backslash_dot @ ''{q}''] ''f.xml''
     = Some (''x = '' @ double_backslash_dot @ ''{q}'')
   \<and> utf8_valid (''x = '' @ double_backslash_dot @ ''{q}'')
   \<and> CHR 0x0D \<notin> set (''x = '' @ double_backslash_dot @ ''{q}'')
   \<and> (\<exists>fs' parts.
           filter_dot_in_xml_formulas [CHR ''\<newline>''] ''f.xml''
             [''f.xml'' \<mapsto> ''x = '' @ double_backslash_dot @ ''{q}''] = Inr fs'
         \<and> fs' ''f.xml'' = Some (''x = '' @ backslash_dot @ ''{q}'')
         \<and> ''x = '' @ double_backslash_dot @ ''{q}'' = str_join double_backslash_dot parts
         \<and> ''x = '' @ backslash_dot @ ''{q}'' = str_join backslash_dot parts
         \<and> (\<forall>p\<in>set parts. \<not> sublist double_backslash_dot p))
   \<and> \<not> sublist double_backslash_dot (''x = '' @ backslash_dot @ ''{q}'')
   \<and> filter_dot_in_xml_formulas [CHR ''\<newline>''] ''g.xml'' [''g.xml'' \<mapsto> [CHR 0xC3]]
       = Inl UnicodeDecodeError"
proof -
  let ?c = "''x = '' @ double_backslash_dot @ ''{q}''"
  let ?n = "''x = '' @ backslash_dot @ ''{q}''"
  let ?fs = "[''f.xml'' \<mapsto> ?c]"
  let ?lf = "[CHR ''\<newline>'']"
  have h: "?fs ''f.xml'' = Some ?c" by simp
  have u: "utf8_valid ?c" by code_simp
  have c: "CHR 0x0D \<notin> set ?c" by code_simp
  have v: "str_replace ?c double_backslash_dot backslash_dot = ?n" by code_simp
  have t: "\<not> sublist (CHR 0x5C # double_backslash_dot) ?c" by code_simp
  have rn: "read_newlines ?c = ?c" by (rule read_newlines_no_cr [OF c])
  note whole = filter_dot_rewrites_each_occurrence [of ?fs "''f.xml''" ?c ?lf, OF h]
  from whole [THEN conjunct2, rule_format, OF u] obtain fs' parts where
    o: "filter_dot_in_xml_formulas ?lf ''f.xml'' ?fs = Inr fs'"
       "fs' ''f.xml'' = Some (write_newlines ?lf (str_join backslash_dot parts))"
       "read_newlines ?c = str_join double_backslash_dot parts"
       "\<forall>p\<in>set parts. \<not> sublist double_backslash_dot p"
       "\<not> sublist (CHR 0x5C # double_backslash_dot) (read_newlines ?c) \<longrightarrow>
          \<not> sublist double_backslash_dot (str_join backslash_dot parts)"
       "CHR 0x0D \<notin> set ?c \<and> ?lf = [CHR ''\<newline>''] \<longrightarrow>
          ?c = str_join double_backslash_dot parts
          \<and> fs' ''f.xml'' = Some (str_join backslash_dot parts)"
    by (elim exE conjE)
  have ne: "double_backslash_dot \<noteq> []" by (simp add: double_backslash_dot_def)
  have j: "str_join backslash_dot parts = ?n"
  proof -
    have "fs' ''f.xml'' = Some (write_newlines ?lf ?n)"
      using filter_dot_result [of ?fs "''f.xml''" ?c ?lf, OF h u] o(1) v rn by auto
    with o(2) show ?thesis by (simp add: write_newlines_lf)
  qed
  have 1: "\<exists>fs' parts.
           filter_dot_in_xml_formulas ?lf ''f.xml'' ?fs = Inr fs'
         \<and> fs' ''f.xml'' = Some ?n
         \<and> ?c = str_join double_backslash_dot parts
         \<and> ?n = str_join backslash_dot parts
         \<and> (\<forall>p\<in>set parts. \<not> sublist double_backslash_dot p)"
    using o(1) o(2) o(3) o(4) j rn by (intro exI [of _ fs'] exI [of _ parts]) (simp add: write_newlines_lf)
  have 2: "\<not> sublist double_backslash_dot ?n"
    using o(5) t rn j by simp
  have g: "[''g.xml'' \<mapsto> [CHR 0xC3]] ''g.xml'' = Some [CHR 0xC3]" by simp
  have gi: "\<not> utf8_valid [CHR 0xC3]" by code_simp
  have 3: "filter_dot_in_xml_formulas ?lf ''g.xml'' [''g.xml'' \<mapsto> [CHR 0xC3]]
           = Inl UnicodeDecodeError"
    using filter_dot_rewrites_each_occurrence
      [of "[''g.xml'' \<mapsto> [CHR 0xC3]]" "''g.xml''" "[CHR 0xC3]" ?lf, OF g, THEN conjunct1]
      gi by (rule mp)
  from h u c 1 2 3 show ?thesis by (intro conjI)
qed

section \<open>Placeholder tokens\<close>

lemma digit_char_code: "d < 10 \<Longrightarrow> (of_char (digit_char d) :: nat) = 48 + d"
  by (simp add: digit_char_def of_char_of)

lemma digit_char_inj: "a < 10 \<Longrightarrow> b < 10 \<Longrightarrow> digit_char a = digit_char b \<Longrightarrow> a = b"
  by (metis digit_char_code add_left_cancel)

lemma str_nat_digits:
  "c \<in> set (str_nat n) \<Longrightarrow> 48 \<le> (of_char c :: nat) \<and> (of_char c :: nat) \<le> 57"
proof (induction n rule: str_nat.induct)
  case (1 n)
  show ?case
  proof (cases "n < 10")
    case True
    with "1.prems" have "c = digit_char n" by (simp add: str_nat.simps [of n])
    with True show ?thesis by (simp add: digit_char_code)
  next
    case False
    with "1.prems" have "c \<in> set (str_nat (n div 10)) \<or> c = digit_char (n mod 10)"
      by (auto simp: str_nat.simps [of n])
    then show ?thesis
    proof
      assume "c \<in> set (str_nat (n div 10))"
      with "1.IH" False show ?thesis by simp
    next
      assume "c = digit_char (n mod 10)"
      then show ?thesis by (simp add: digit_char_code)
    qed
  qed
qed

lemma str_nat_not_empty: "str_nat n \<noteq> []"
  by (subst str_nat.simps) simp

lemma str_nat_inj: "str_nat n = str_nat m \<Longrightarrow> n = m"
proof (induction n arbitrary: m rule: str_nat.induct)
  case (1 n)
  show ?case
  proof (cases "n < 10")
    case n: True
    show ?thesis
    proof (cases "m < 10")
      case True
      with n "1.prems" have "digit_char n = digit_char m"
        by (simp add: str_nat.simps [of n] str_nat.simps [of m])
      with n True show ?thesis by (rule digit_char_inj)
    next
      case False
      with n "1.prems" have "[digit_char n] = str_nat (m div 10) @ [digit_char (m mod 10)]"
        by (simp add: str_nat.simps [of n] str_nat.simps [of m])
      then have "str_nat (m div 10) = []" by simp
      with str_nat_not_empty show ?thesis by blast
    qed
  next
    case n: False
    show ?thesis
    proof (cases "m < 10")
      case True
      with n "1.prems" have "str_nat (n div 10) @ [digit_char (n mod 10)] = [digit_char m]"
        by (simp add: str_nat.simps [of n] str_nat.simps [of m])
      then have "str_nat (n div 10) = []" by simp
      with str_nat_not_empty show ?thesis by blast
    next
      case False
      with n "1.prems" have
        "str_nat (n div 10) @ [digit_char (n mod 10)]
         = str_nat (m div 10) @ [digit_char (m mod 10)]"
        by (simp add: str_nat.simps [of n] str_nat.simps [of m])
      then have a: "str_nat (n div 10) = str_nat (m div 10)"
        and b: "digit_char (n mod 10) = digit_char (m mod 10)" by simp_all
      from "1.IH" [OF n a] have d: "n div 10 = m div 10" .
      from b have "n mod 10 = m mod 10" by (intro digit_char_inj) simp_all
      with d show ?thesis by (metis div_mult_mod_eq)
    qed
  qed
qed

lemma str_int_chars:
  "c \<in> set (str_int i) \<Longrightarrow> c \<noteq> CHR ''F'' \<and> c \<noteq> CHR ''_''"
proof -
  assume a: "c \<in> set (str_int i)"
  then have "c = CHR ''-'' \<or> c \<in> set (str_nat (nat (- i))) \<or> c \<in> set (str_nat (nat i))"
    by (auto simp: str_int_def split: if_splits)
  then show ?thesis using str_nat_digits [of c] by auto
qed

lemma str_int_inj: "str_int i = str_int j \<Longrightarrow> i = j"
proof -
  assume a: "str_int i = str_int j"
  have nm: "CHR ''-'' # str_nat a \<noteq> str_nat b" for a b
  proof
    assume "CHR ''-'' # str_nat a = str_nat b"
    then have "CHR ''-'' \<in> set (str_nat b)" by (metis list.set_intros(1))
    from str_nat_digits [OF this] show False by simp
  qed
  show ?thesis
  proof (cases "i < 0")
    case i: True
    show ?thesis
    proof (cases "j < 0")
      case True
      with i a have "str_nat (nat (- i)) = str_nat (nat (- j))" by (simp add: str_int_def)
      then have "nat (- i) = nat (- j)" by (rule str_nat_inj)
      with i True show ?thesis by simp
    next
      case False
      with i a nm show ?thesis by (simp add: str_int_def)
    qed
  next
    case i: False
    show ?thesis
    proof (cases "j < 0")
      case True
      with i a nm [of "nat (- j)" "nat i"] show ?thesis by (simp add: str_int_def)
    next
      case False
      with i a have "str_nat (nat i) = str_nat (nat j)" by (simp add: str_int_def)
      then have "nat i = nat j" by (rule str_nat_inj)
      with i False show ?thesis by simp
    qed
  qed
qed


lemma first_separator_unique:
  "x \<notin> set xs \<Longrightarrow> x \<notin> set xs' \<Longrightarrow> xs @ x # ys = xs' @ x # ys' \<Longrightarrow> xs = xs'"
proof (induction xs arbitrary: xs')
  case Nil
  then show ?case by (cases xs') auto
next
  case (Cons a xs)
  then show ?case by (cases xs') auto
qed

lemma placeholder_cons: "placeholder i = CHR ''F'' # (''ORMULA'' @ str_int i @ ''_'')"
  by (simp add: placeholder_def)

lemma placeholder_tail: "CHR ''F'' \<notin> set (''ORMULA'' @ str_int i @ ''_'')"
  using str_int_chars [of "CHR ''F''" i] by auto

lemma placeholder_prefix_same:
  assumes "prefix (placeholder i) (placeholder j @ ys)"
  shows "i = j"
proof -
  from assms have "prefix (str_int i @ [CHR ''_'']) (str_int j @ CHR ''_'' # ys)"
    by (simp add: placeholder_def)
  then obtain r where r: "str_int j @ CHR ''_'' # ys = str_int i @ CHR ''_'' # r"
    by (auto simp: prefix_def)
  have u: "CHR ''_'' \<notin> set (str_int i)" "CHR ''_'' \<notin> set (str_int j)"
    using str_int_chars by blast+
  have "str_int j = str_int i"
    using u(2) u(1) r by (rule first_separator_unique)
  then show ?thesis using str_int_inj by blast
qed

lemma placeholder_prefix_before:
  assumes "i \<noteq> j" and "prefix (placeholder i) (xs @ placeholder j @ ys)"
  shows "prefix (placeholder i) xs"
proof (rule ccontr)
  assume n: "\<not> prefix (placeholder i) xs"
  with assms(2) obtain us where
    us: "placeholder i = xs @ us" "prefix us (placeholder j @ ys)"
    by (auto simp: prefix_append)
  show False
  proof (cases xs)
    case Nil
    with us have "prefix (placeholder i) (placeholder j @ ys)" by simp
    with assms(1) placeholder_prefix_same show False by blast
  next
    case (Cons x xs')
    with us(1) have t: "''ORMULA'' @ str_int i @ ''_'' = xs' @ us"
      by (simp add: placeholder_cons)
    from n us(1) have "us \<noteq> []" by auto
    then obtain u us' where u: "us = u # us'" by (cases us) auto
    with us(2) have "u = CHR ''F''" by (simp add: placeholder_cons)
    with t u have "CHR ''F'' \<in> set (''ORMULA'' @ str_int i @ ''_'')"
      by (metis in_set_conv_decomp)
    with placeholder_tail show False by blast
  qed
qed

lemma replace_scan_before_placeholder:
  assumes "i \<noteq> j"
  shows "replace_scan (xs @ placeholder j @ ys) (placeholder i) f
         = replace_scan xs (placeholder i) f
           @ replace_scan (placeholder j @ ys) (placeholder i) f"
proof (induction "length xs" arbitrary: xs rule: less_induct)
  case less
  let ?ti = "placeholder i"
  have ne: "?ti \<noteq> []" by (simp add: placeholder_cons)
  show ?case
  proof (cases xs)
    case Nil
    then show ?thesis by simp
  next
    case (Cons c cs)
    show ?thesis
    proof (cases "prefix ?ti (xs @ placeholder j @ ys)")
      case True
      from placeholder_prefix_before [OF assms True] obtain zs where zs: "xs = ?ti @ zs"
        by (auto elim: prefixE)
      then have "length zs < length xs" using ne by simp
      from less.hyps [OF this]
      have "replace_scan (zs @ placeholder j @ ys) ?ti f
            = replace_scan zs ?ti f @ replace_scan (placeholder j @ ys) ?ti f" .
      moreover have "replace_scan (?ti @ (zs @ placeholder j @ ys)) ?ti f
            = f @ replace_scan (zs @ placeholder j @ ys) ?ti f"
        by (rule replace_scan_hit [OF ne])
      moreover have "replace_scan (?ti @ zs) ?ti f = f @ replace_scan zs ?ti f"
        by (rule replace_scan_hit [OF ne])
      ultimately show ?thesis unfolding zs by simp
    next
      case False
      then have "\<not> prefix ?ti xs" using prefix_prefix by blast
      with False Cons less.hyps [of cs] show ?thesis by simp
    qed
  qed
qed

lemma replace_scan_at_placeholder:
  assumes "i \<noteq> j"
  shows "replace_scan (placeholder j @ ys) (placeholder i) f
         = placeholder j @ replace_scan ys (placeholder i) f"
proof -
  let ?tl = "''ORMULA'' @ str_int j @ ''_''"
  have "\<not> prefix (placeholder i) (placeholder j @ ys)"
    using assms placeholder_prefix_same by blast
  then have "replace_scan (placeholder j @ ys) (placeholder i) f
        = CHR ''F'' # replace_scan (?tl @ ys) (placeholder i) f"
    by (simp add: placeholder_cons [of j])
  also have "replace_scan (?tl @ ys) (placeholder i) f = ?tl @ replace_scan ys (placeholder i) f"
    by (rule replace_scan_skip [OF placeholder_tail]) (simp add: placeholder_cons)
  finally show ?thesis by (simp add: placeholder_cons [of j])
qed

lemma str_replace_around_placeholder:
  assumes "i \<noteq> j"
  shows "str_replace (xs @ placeholder j @ ys) (placeholder i) f
         = str_replace xs (placeholder i) f @ placeholder j @ str_replace ys (placeholder i) f"
proof -
  have "placeholder i \<noteq> []" by (simp add: placeholder_cons)
  then show ?thesis
    by (simp add: str_replace_def replace_scan_before_placeholder [OF assms]
          replace_scan_at_placeholder [OF assms])
qed

lemma placeholder_not_sublist:
  assumes "i \<noteq> j"
  shows "\<not> sublist (placeholder i) (placeholder j)"
proof
  assume "sublist (placeholder i) (placeholder j)"
  then obtain ps ss where d: "placeholder j = ps @ placeholder i @ ss"
    by (auto simp: sublist_def)
  show False
  proof (cases ps)
    case Nil
    with d have "prefix (placeholder j) (placeholder i @ ss)" by simp
    with assms placeholder_prefix_same show False by blast
  next
    case (Cons p ps')
    with d have "''ORMULA'' @ str_int j @ ''_'' = ps' @ CHR ''F'' # (''ORMULA'' @ str_int i @ ''_'') @ ss"
      by (simp add: placeholder_cons)
    then have "CHR ''F'' \<in> set (''ORMULA'' @ str_int j @ ''_'')"
      by (metis in_set_conv_decomp)
    with placeholder_tail show False by blast
  qed
qed


text \<open>
  C9. For two distinct integer formula ids \<open>i\<close> and \<open>j\<close>, the token
  \<open>FORMULA<i>_\<close> does not occur in the token \<open>FORMULA<j>_\<close>, and the substitution
  for id \<open>i\<close> leaves every occurrence of the token of \<open>j\<close> in a line in place: the
  line \<open>xs FORMULA<j>_ ys\<close> becomes the token of \<open>j\<close> between the rewritten \<open>xs\<close> and
  the rewritten \<open>ys\<close>, for the inline and for the indented form of the formula. The
  statement is symmetric in \<open>i\<close> and \<open>j\<close>, so it holds in whatever order the ids are
  processed.
\<close>

theorem placeholder_tokens_independent:
  assumes "i \<noteq> j"
  shows "\<not> sublist (placeholder i) (placeholder j)
       \<and> (\<exists>F. substitute formula_type (placeholder i) formula (xs @ placeholder j @ ys)
                = str_replace xs (placeholder i) F @ placeholder j
                  @ str_replace ys (placeholder i) F)"
proof
  show "\<not> sublist (placeholder i) (placeholder j)"
    by (rule placeholder_not_sublist [OF assms])
  show "\<exists>F. substitute formula_type (placeholder i) formula (xs @ placeholder j @ ys)
                = str_replace xs (placeholder i) F @ placeholder j
                  @ str_replace ys (placeholder i) F"
  proof (cases "formula_type = ''inline''")
    case True
    then have "substitute formula_type (placeholder i) formula (xs @ placeholder j @ ys)
        = str_replace (xs @ placeholder j @ ys) (placeholder i) formula"
      by (simp add: substitute_def)
    then show ?thesis
      using str_replace_around_placeholder [OF assms] by metis
  next
    case False
    let ?line = "xs @ placeholder j @ ys"
    let ?F = "text_indent formula (replicate (length ?line - length (str_lstrip ?line)) (CHR '' ''))"
    from False have "substitute formula_type (placeholder i) formula ?line
        = str_replace ?line (placeholder i) ?F"
      by (simp add: substitute_def Let_def)
    also have "\<dots> = str_replace xs (placeholder i) ?F @ placeholder j
                  @ str_replace ys (placeholder i) ?F"
      by (rule str_replace_around_placeholder [OF assms])
    finally show ?thesis by (rule exI)
  qed
qed

theorem placeholder_tokens_independent_witness:
  "(1::int) \<noteq> 12
   \<and> \<not> sublist (placeholder 1) (placeholder 12)
   \<and> (\<exists>F. substitute ''inline'' (placeholder 1) ''x^2'' (''see '' @ placeholder 12 @ '' and FORMULA1_'')
            = str_replace ''see '' (placeholder 1) F @ placeholder 12
              @ str_replace '' and FORMULA1_'' (placeholder 1) F)
   \<and> substitute ''inline'' (placeholder 1) ''x^2'' (''see '' @ placeholder 12 @ '' and FORMULA1_'')
       = ''see FORMULA12_ and x^2''"
proof -
  have h: "(1::int) \<noteq> 12" by simp
  have v: "substitute ''inline'' (placeholder 1) ''x^2''
             (''see '' @ placeholder 12 @ '' and FORMULA1_'') = ''see FORMULA12_ and x^2''"
    by code_simp
  note t = placeholder_tokens_independent [OF h, of "''inline''" "''x^2''" "''see ''"
      "'' and FORMULA1_''"]
  show ?thesis
    using h t [THEN conjunct1] t [THEN conjunct2] v by (intro conjI)
qed

end
